theory Spec2Isabelle
  imports Complex_Main "HOL-Library.Char_ord" "HOL-Library.Stream"
begin

section \<open>utils.js\<close>

text \<open>
  Strings are lists of characters, ordered by their character code
  (\<open>HOL-Library.Char_ord\<close>), which is the order a character range of a regular
  expression uses. A character is one of the 256 codes 0 to 255; a JavaScript string
  is a list of 16-bit code units, and the units above 255, which no range of the class
  below contains, are not represented.
\<close>

definition ALPHABET :: string where
  "ALPHABET = ''abcdefghijklmnopqrstuvwxyzABCDEFGHIJKLMNOPQRSTUVWXYZ0123456789''"

text \<open>
  \<^verbatim>\<open>CODE_REGEX = /^[A-Za-z0-9]{6,8}$/\<close>: one character class, given by its ranges,
  repeated between \<open>at_least\<close> and \<open>at_most\<close> times, anchored at both ends of the
  input (no \<open>m\<close> flag, so \<open>$\<close> is the end of the input only).
\<close>

record regex =
  ranges :: "(char \<times> char) list"
  at_least :: nat
  at_most :: nat

definition CODE_REGEX :: regex where
  "CODE_REGEX =
     \<lparr>ranges = [(CHR ''A'', CHR ''Z''), (CHR ''a'', CHR ''z''), (CHR ''0'', CHR ''9'')],
      at_least = 6, at_most = 8\<rparr>"

fun in_class :: "(char \<times> char) list \<Rightarrow> char \<Rightarrow> bool" where
  "in_class [] c = False"
| "in_class ((a, b) # rs) c = ((a \<le> c \<and> c \<le> b) \<or> in_class rs c)"

text \<open>
  The matcher walks the input from its start: \<open>m\<close> repetitions are still required and
  \<open>n\<close> are still allowed. At the end of the input the anchor \<open>$\<close> matches, and the
  match succeeds when no repetition is owed; before the end the anchor cannot match, so
  the next character has to be one more repetition of the class.
\<close>

fun repeat_to_end :: "(char \<times> char) list \<Rightarrow> nat \<Rightarrow> nat \<Rightarrow> string \<Rightarrow> bool" where
  "repeat_to_end cls m n [] = (m = 0)"
| "repeat_to_end cls m n (c # cs) = (0 < n \<and> in_class cls c \<and> repeat_to_end cls (m - 1) (n - 1) cs)"

definition regex_test :: "regex \<Rightarrow> string \<Rightarrow> bool" where
  "regex_test r s = repeat_to_end (ranges r) (at_least r) (at_most r) s"

definition isValidCode :: "string \<Rightarrow> bool" where
  "isValidCode code = regex_test CODE_REGEX code"

text \<open>
  \<^verbatim>\<open>ALPHABET[index]\<close>: the one-character string at an index in range; out of range
  JavaScript yields \<^verbatim>\<open>undefined\<close>, which \<^verbatim>\<open>code += ...\<close> appends as text.
\<close>

definition js_index :: "string \<Rightarrow> int \<Rightarrow> string" where
  "js_index s i = (if 0 \<le> i \<and> i < int (length s) then [s ! nat i] else ''undefined'')"

text \<open>
  \<^verbatim>\<open>Math.random()\<close> is a stream of reals, read at its head; the contract of the
  platform is that each lies in \<open>[0, 1)\<close>. The loop of \<open>generateCode\<close> runs \<open>length\<close>
  times, appending one character per round.
\<close>

fun generateCode_loop :: "nat \<Rightarrow> string \<Rightarrow> real stream \<Rightarrow> string \<times> real stream" where
  "generateCode_loop 0 code rnd = (code, rnd)"
| "generateCode_loop (Suc k) code rnd =
     (let index = \<lfloor>shd rnd * real (length ALPHABET)\<rfloor>
      in generateCode_loop k (code @ js_index ALPHABET index) (stl rnd))"

definition generateCode :: "nat \<Rightarrow> real stream \<Rightarrow> string \<times> real stream" where
  "generateCode len rnd = generateCode_loop len [] rnd"

text \<open>
  \<^verbatim>\<open>new URL(url)\<close> is the platform's parser; \<open>URL_ctor url\<close> says that it returns
  rather than throws.
\<close>

definition isValidUrl :: "(string \<Rightarrow> bool) \<Rightarrow> string \<Rightarrow> bool" where
  "isValidUrl URL_ctor url = (if URL_ctor url then True else False)"

text \<open>The character set of the specification: \<open>A-Z\<close>, \<open>a-z\<close>, \<open>0-9\<close>.\<close>

definition alnum :: "char \<Rightarrow> bool" where
  "alnum c =
     ((CHR ''A'' \<le> c \<and> c \<le> CHR ''Z'') \<or> (CHR ''a'' \<le> c \<and> c \<le> CHR ''z'') \<or>
      (CHR ''0'' \<le> c \<and> c \<le> CHR ''9''))"


section \<open>The store\<close>

type_synonym timestamp = nat

record link =
  link_id :: nat
  code :: string
  original_url :: string
  clicks :: int
  last_clicked_at :: "timestamp option"
  created_at :: timestamp

text \<open>
  The world a request handler runs in: the rows of table \<open>links\<close> in insertion order,
  the sequence that numbers new rows, the store's clock (\<^verbatim>\<open>NOW()\<close>) and the
  process-wide source of \<^verbatim>\<open>Math.random()\<close>.
\<close>

record world =
  links :: "link list"
  next_id :: nat
  now :: timestamp
  rng :: "real stream"

text \<open>
  The statements the handlers send, one constructor per statement text, with its
  parameters. The three \<^verbatim>\<open>SELECT ... WHERE code = $1\<close> differ in the columns
  they project only and share a constructor; a row is returned whole.
\<close>

datatype sql =
    SELECT_BY_code string
  | INSERT string string
  | SELECT_ALL
  | DELETE_BY_code string
  | UPDATE_BY_id nat

record result =
  rows :: "link list"
  rowCount :: nat

datatype error = UniqueViolation | ConnectionError | TypeError

fun err_code :: "error \<Rightarrow> string option" where
  "err_code UniqueViolation = Some ''23505''"
| "err_code ConnectionError = Some ''ECONNREFUSED''"
| "err_code TypeError = None"

text \<open>
  Modelled from the spec: the table \<open>links\<close> and what the store does with each
  statement (the module \<^verbatim>\<open>./db\<close> and the schema are not among the sources). The
  persisted record has an identity assigned at creation and never reused, a unique
  \<open>code\<close>, a visit count that starts at 0, a last-visit time that is absent until the
  first visit and a creation time. An \<^verbatim>\<open>INSERT\<close> of a code that a row already has
  is refused with the unique violation 23505 and changes nothing. Rows of equal
  \<open>created_at\<close> are listed latest-inserted first.
\<close>

fun exec :: "sql \<Rightarrow> world \<Rightarrow> world \<times> (error + result)" where
  "exec (SELECT_BY_code c) w =
     (let rs = filter (\<lambda>l. code l = c) (links w)
      in (w, Inr \<lparr>rows = rs, rowCount = length rs\<rparr>))"
| "exec (INSERT c u) w =
     (if c \<in> set (map code (links w)) then (w, Inl UniqueViolation)
      else
        let l = \<lparr>link_id = next_id w, code = c, original_url = u, clicks = 0,
                 last_clicked_at = None, created_at = now w\<rparr>
        in (w\<lparr>links := links w @ [l], next_id := Suc (next_id w)\<rparr>,
            Inr \<lparr>rows = [l], rowCount = 1\<rparr>))"
| "exec SELECT_ALL w =
     (let rs = rev (sort_key created_at (links w))
      in (w, Inr \<lparr>rows = rs, rowCount = length rs\<rparr>))"
| "exec (DELETE_BY_code c) w =
     (w\<lparr>links := filter (\<lambda>l. code l \<noteq> c) (links w)\<rparr>,
      Inr \<lparr>rows = [], rowCount = length (filter (\<lambda>l. code l = c) (links w))\<rparr>)"
| "exec (UPDATE_BY_id i) w =
     (w\<lparr>links :=
          map (\<lambda>l. if link_id l = i
                    then l\<lparr>clicks := clicks l + 1, last_clicked_at := Some (now w)\<rparr>
                    else l)
            (links w)\<rparr>,
      Inr \<lparr>rows = [], rowCount = length (filter (\<lambda>l. link_id l = i) (links w))\<rparr>)"

text \<open>
  Every \<^verbatim>\<open>await query(...)\<close> gives control back to the event loop, so between two
  queries of one handler the world moves on: time passes, other requests run their own
  queries, and the connection can fail. A \<open>tick\<close> is what happens around one query:
  \<open>meanwhile\<close> is applied to the world before the store runs the statement, and
  \<open>fails\<close> says that the query is rejected with a connection error, its statement not
  run. A schedule is the list of ticks of a handler's queries in order; when it is
  exhausted nothing else happens and no query fails.
\<close>

record tick =
  meanwhile :: "world \<Rightarrow> world"
  fails :: bool

definition quiet :: tick where
  "quiet = \<lparr>meanwhile = (\<lambda>w. w), fails = False\<rparr>"

definition next_tick :: "tick list \<Rightarrow> tick" where
  "next_tick sched = (case sched of [] \<Rightarrow> quiet | t # _ \<Rightarrow> t)"

text \<open>
  Modelled from the spec: \<^verbatim>\<open>query\<close> of the module \<^verbatim>\<open>./db\<close>, which is not among
  the sources. Each call is one self-contained atomic operation against the store; a
  store that is unavailable makes the call throw, which is no unique violation.
\<close>

definition query :: "tick list \<Rightarrow> sql \<Rightarrow> world \<Rightarrow> tick list \<times> world \<times> (error + result)" where
  "query sched q w =
     (let t = next_tick sched; w1 = meanwhile t w
      in if fails t then (tl sched, w1, Inl ConnectionError)
         else (tl sched, exec q w1))"

section \<open>index.js\<close>

datatype body =
    Message string
  | Text string
  | LinkJson link string
  | LinksJson "(link \<times> string) list"
  | HealthJson bool string
  | Location string
  | Empty
  | Unrouted

type_synonym response = "nat \<times> body"

record env =
  BASE_URL :: string
  VERSION :: string
  URL_ctor :: "string \<Rightarrow> bool"

text \<open>
  The JSON body of \<^verbatim>\<open>POST /api/links\<close>: each field is a string or absent.
  \<open>provided v\<close> is the string when \<open>v\<close> is truthy: present and not empty.
\<close>

record post_body =
  req_url :: "string option"
  req_code :: "string option"

definition provided :: "string option \<Rightarrow> string option" where
  "provided v = (case v of None \<Rightarrow> None | Some s \<Rightarrow> if s = [] then None else Some s)"

definition healthz :: "env \<Rightarrow> response" where
  "healthz env = (200, HealthJson True (VERSION env))"

definition short_url :: "env \<Rightarrow> link \<Rightarrow> string" where
  "short_url env l = BASE_URL env @ ''/'' @ code l"

text \<open>
  The loop \<^verbatim>\<open>while (exists) { ... }\<close> of \<^verbatim>\<open>POST /api/links\<close>. It has no bound in
  the source; \<open>fuel\<close> bounds the number of rounds here, and \<open>None\<close> says that the loop
  has not left within them. A query that throws leaves the loop with the error.
\<close>

fun generate_unique ::
  "nat \<Rightarrow> tick list \<Rightarrow> world \<Rightarrow> (tick list \<times> world \<times> (error + string)) option" where
  "generate_unique 0 sched w = None"
| "generate_unique (Suc fuel) sched w =
     (let (finalCode, rnd) = generateCode 6 (rng w)
      in case query sched (SELECT_BY_code finalCode) (w\<lparr>rng := rnd\<rparr>) of
           (sched1, w1, Inl err) \<Rightarrow> Some (sched1, w1, Inl err)
         | (sched1, w1, Inr existing) \<Rightarrow>
             if length (rows existing) > 0 then generate_unique fuel sched1 w1
             else Some (sched1, w1, Inr finalCode))"

text \<open>The \<^verbatim>\<open>catch\<close> block of \<^verbatim>\<open>POST /api/links\<close>.\<close>

definition create_failed :: "error \<Rightarrow> response" where
  "create_failed err =
     (if err_code err = Some ''23505'' then (409, Message ''Code already exists'')
      else (500, Message ''Server error''))"

text \<open>
  The \<^verbatim>\<open>INSERT\<close> and the response built from \<^verbatim>\<open>result.rows[0]\<close>; reading a field
  of a missing first row throws a \<open>TypeError\<close> inside the \<^verbatim>\<open>try\<close>.
\<close>

definition insert_link :: "env \<Rightarrow> tick list \<Rightarrow> string \<Rightarrow> string \<Rightarrow> world \<Rightarrow> world \<times> response" where
  "insert_link env sched finalCode url w =
     (case query sched (INSERT finalCode url) w of
        (_, w1, Inl err) \<Rightarrow> (w1, create_failed err)
      | (_, w1, Inr res) \<Rightarrow>
          (case rows res of
             [] \<Rightarrow> (w1, create_failed TypeError)
           | l # _ \<Rightarrow> (w1, (201, LinkJson l (short_url env l)))))"

definition post_links ::
  "env \<Rightarrow> nat \<Rightarrow> tick list \<Rightarrow> post_body \<Rightarrow> world \<Rightarrow> (world \<times> response) option" where
  "post_links env fuel sched b w =
     (case provided (req_url b) of
        None \<Rightarrow> Some (w, (400, Message ''url is required''))
      | Some url \<Rightarrow>
          if \<not> isValidUrl (URL_ctor env) url then Some (w, (400, Message ''Invalid URL''))
          else if (case provided (req_code b) of Some c \<Rightarrow> \<not> isValidCode c | None \<Rightarrow> False)
          then Some (w, (400, Message ''Code must match [A-Za-z0-9]{6,8}''))
          else
            (case (case provided (req_code b) of
                     None \<Rightarrow> generate_unique fuel sched w
                   | Some c \<Rightarrow> Some (sched, w, Inr c)) of
               None \<Rightarrow> None
             | Some (sched1, w1, Inl err) \<Rightarrow> Some (w1, create_failed err)
             | Some (sched1, w1, Inr finalCode) \<Rightarrow> Some (insert_link env sched1 finalCode url w1)))"

definition get_links :: "env \<Rightarrow> tick list \<Rightarrow> world \<Rightarrow> world \<times> response" where
  "get_links env sched w =
     (case query sched SELECT_ALL w of
        (_, w1, Inl err) \<Rightarrow> (w1, (500, Message ''Server error''))
      | (_, w1, Inr res) \<Rightarrow> (w1, (200, LinksJson (map (\<lambda>row. (row, short_url env row)) (rows res)))))"

definition get_link :: "env \<Rightarrow> tick list \<Rightarrow> string \<Rightarrow> world \<Rightarrow> world \<times> response" where
  "get_link env sched c w =
     (if \<not> isValidCode c then (w, (400, Message ''Invalid code format''))
      else
        (case query sched (SELECT_BY_code c) w of
           (_, w1, Inl err) \<Rightarrow> (w1, (500, Message ''Server error''))
         | (_, w1, Inr res) \<Rightarrow>
             (case rows res of
                [] \<Rightarrow> (w1, (404, Message ''Code not found''))
              | l # _ \<Rightarrow> (w1, (200, LinkJson l (short_url env l))))))"

definition delete_link :: "tick list \<Rightarrow> string \<Rightarrow> world \<Rightarrow> world \<times> response" where
  "delete_link sched c w =
     (if \<not> isValidCode c then (w, (400, Message ''Invalid code format''))
      else
        (case query sched (DELETE_BY_code c) w of
           (_, w1, Inl err) \<Rightarrow> (w1, (500, Message ''Server error''))
         | (_, w1, Inr res) \<Rightarrow>
             if rowCount res = 0 then (w1, (404, Message ''Code not found''))
             else (w1, (204, Empty))))"

definition get_code :: "tick list \<Rightarrow> string \<Rightarrow> world \<Rightarrow> world \<times> response" where
  "get_code sched c w =
     (if c = ''api'' \<or> c = ''healthz'' then (w, (404, Text ''Not found''))
      else if \<not> isValidCode c then (w, (404, Text ''Short URL not found''))
      else
        (case query sched (SELECT_BY_code c) w of
           (_, w1, Inl err) \<Rightarrow> (w1, (500, Text ''Server error''))
         | (sched1, w1, Inr res) \<Rightarrow>
             (case rows res of
                [] \<Rightarrow> (w1, (404, Text ''Short URL not found''))
              | l # _ \<Rightarrow>
                  (case query sched1 (UPDATE_BY_id (link_id l)) w1 of
                     (_, w2, Inl err) \<Rightarrow> (w2, (500, Text ''Server error''))
                   | (_, w2, Inr _) \<Rightarrow> (w2, (302, Location (original_url l)))))))"

text \<open>
  A route is a list of segments, a literal or the parameter \<^verbatim>\<open>:code\<close>, and a path
  is the list of the segments between its slashes, a trailing slash dropped. By the
  framework's defaults a literal segment matches without regard to the case of the
  letters \<open>A-Z\<close>, and the parameter matches one non-empty segment, which it passes on
  as it is.
\<close>

datatype seg = Lit string | Param

definition lower :: "char \<Rightarrow> char" where
  "lower c = (if CHR ''A'' \<le> c \<and> c \<le> CHR ''Z'' then char_of (of_char c + (32 :: nat)) else c)"

fun matches :: "seg list \<Rightarrow> string list \<Rightarrow> bool" where
  "matches [] [] = True"
| "matches (Lit s # ps) (x # xs) = (map lower x = map lower s \<and> matches ps xs)"
| "matches (Param # ps) (x # xs) = (x \<noteq> [] \<and> matches ps xs)"
| "matches _ _ = False"

text \<open>
  The routes in the order they are registered; the first that matches answers. A
  request is given with the schedule of its queries and the fuel of its loop. The
  framework answers a \<^verbatim>\<open>HEAD\<close> request with the route of \<^verbatim>\<open>GET\<close>, so \<open>GET\<close>
  stands for both. A request that no route matches gets the framework's 404.
\<close>

datatype verb = GET | POST | DELETE

record request =
  verb_of :: verb
  path :: "string list"
  payload :: post_body
  fuel_of :: nat
  ticks :: "tick list"

definition app :: "env \<Rightarrow> request \<Rightarrow> world \<Rightarrow> (world \<times> response) option" where
  "app env r w =
     (if verb_of r = GET \<and> matches [Lit ''healthz''] (path r) then Some (w, healthz env)
      else if verb_of r = POST \<and> matches [Lit ''api'', Lit ''links''] (path r)
      then post_links env (fuel_of r) (ticks r) (payload r) w
      else if verb_of r = GET \<and> matches [Lit ''api'', Lit ''links''] (path r)
      then Some (get_links env (ticks r) w)
      else if verb_of r = GET \<and> matches [Lit ''api'', Lit ''links'', Param] (path r)
      then Some (get_link env (ticks r) (path r ! 2) w)
      else if verb_of r = DELETE \<and> matches [Lit ''api'', Lit ''links'', Param] (path r)
      then Some (delete_link (ticks r) (path r ! 2) w)
      else if verb_of r = GET \<and> matches [Param] (path r)
      then Some (get_code (ticks r) (path r ! 0) w)
      else Some (w, (404, Unrouted)))"

text \<open>Requests handled one after the other; the responses are collected in order.\<close>

fun run :: "env \<Rightarrow> request list \<Rightarrow> world \<Rightarrow> (world \<times> response list) option" where
  "run env [] w = Some (w, [])"
| "run env (r # rs) w =
     (case app env r w of
        None \<Rightarrow> None
      | Some (w1, resp) \<Rightarrow>
          (case run env rs w1 of
             None \<Rightarrow> None
           | Some (w2, resps) \<Rightarrow> Some (w2, resp # resps)))"

section \<open>Running requests\<close>

text \<open>
  What other requests do to the world while a query is in flight: they are handled
  one after the other, each to its end.
\<close>

definition others :: "env \<Rightarrow> request list \<Rightarrow> world \<Rightarrow> world" where
  "others env rs w = (case run env rs w of None \<Rightarrow> w | Some (w1, _) \<Rightarrow> w1)"

definition during :: "env \<Rightarrow> request list \<Rightarrow> tick" where
  "during env rs = \<lparr>meanwhile = others env rs, fails = False\<rparr>"

text \<open>
  A tick is calm when nothing writes to the table during it: time may pass, random
  numbers may be drawn and the query may fail.
\<close>

definition calm_tick :: "tick \<Rightarrow> bool" where
  "calm_tick t = (\<forall>w. links (meanwhile t w) = links w \<and> next_id (meanwhile t w) = next_id w)"

definition calm :: "tick list \<Rightarrow> bool" where
  "calm sched = (\<forall>t \<in> set sched. calm_tick t)"

section \<open>Invariants and effects\<close>

text \<open>
  The table is well formed when no two rows share an identity or a code and the
  sequence is ahead of every identity in use.
\<close>

definition wf :: "world \<Rightarrow> bool" where
  "wf w = (distinct (map link_id (links w)) \<and> distinct (map code (links w)) \<and>
           (\<forall>i \<in> set (map link_id (links w)). i < next_id w))"


text \<open>
  What one request can do to the table: nothing, append a row, remove the rows of a
  code, or count a visit on the rows of an identity. \<open>apply_change\<close> gives the rows
  and the sequence afterwards; \<open>caused_by\<close> says which request and response go with
  which change.
\<close>

datatype change = Unchanged | Inserted link | Removed string | Visited link timestamp

fun apply_change :: "change \<Rightarrow> world \<Rightarrow> link list \<times> nat" where
  "apply_change Unchanged w = (links w, next_id w)"
| "apply_change (Inserted l) w = (links w @ [l], Suc (next_id w))"
| "apply_change (Removed c) w = (filter (\<lambda>l. code l \<noteq> c) (links w), next_id w)"
| "apply_change (Visited l t) w =
     (map (\<lambda>r. if link_id r = link_id l
               then r\<lparr>clicks := clicks r + 1, last_clicked_at := Some t\<rparr>
               else r)
        (links w),
      next_id w)"

fun caused_by :: "change \<Rightarrow> request \<Rightarrow> response \<Rightarrow> world \<Rightarrow> bool" where
  "caused_by Unchanged r resp w = (\<not> (verb_of r = GET \<and> length (path r) = 1 \<and> fst resp = 302))"
| "caused_by (Inserted l) r resp w =
     (verb_of r = POST \<and> matches [Lit ''api'', Lit ''links''] (path r) \<and> fst resp = 201 \<and>
      link_id l = next_id w \<and> code l \<notin> set (map code (links w)) \<and> clicks l = 0 \<and>
      last_clicked_at l = None)"
| "caused_by (Removed c) r resp w =
     (verb_of r = DELETE \<and> matches [Lit ''api'', Lit ''links'', Param] (path r) \<and>
      path r ! 2 = c \<and> resp = (204, Empty))"
| "caused_by (Visited l t) r resp w =
     (verb_of r = GET \<and> path r = [code l] \<and> resp = (302, Location (original_url l)) \<and>
      l \<in> set (links w))"





definition all_calm :: "request list \<Rightarrow> bool" where
  "all_calm rs = (\<forall>r \<in> set rs. calm (ticks r))"


text \<open>Sample values for the closed instances of the theorems.\<close>

definition sample_env :: env where
  "sample_env =
     \<lparr>BASE_URL = ''http://localhost:5000'', VERSION = ''1.0'',
      URL_ctor = (\<lambda>u. take 8 u = ''https://'' \<or> take 7 u = ''http://'')\<rparr>"

definition empty_world :: world where
  "empty_world = \<lparr>links = [], next_id = 1, now = 1000, rng = sconst (1 / 2)\<rparr>"

definition sample_link :: link where
  "sample_link =
     \<lparr>link_id = 1, code = ''abcdef'', original_url = ''https://example.com/page'', clicks = 0,
      last_clicked_at = None, created_at = 1000\<rparr>"

definition sample_world :: world where
  "sample_world = \<lparr>links = [sample_link], next_id = 2, now = 2000, rng = sconst (1 / 2)\<rparr>"

definition failing :: tick where
  "failing = \<lparr>meanwhile = (\<lambda>w. w), fails = True\<rparr>"

definition post_req :: "string option \<Rightarrow> string option \<Rightarrow> request" where
  "post_req u c =
     \<lparr>verb_of = POST, path = [''api'', ''links''], payload = \<lparr>req_url = u, req_code = c\<rparr>,
      fuel_of = 1, ticks = []\<rparr>"

definition delete_req :: "string \<Rightarrow> request" where
  "delete_req c =
     \<lparr>verb_of = DELETE, path = [''api'', ''links'', c],
      payload = \<lparr>req_url = None, req_code = None\<rparr>, fuel_of = 0, ticks = []\<rparr>"

definition get_req :: "string list \<Rightarrow> tick list \<Rightarrow> request" where
  "get_req p sched =
     \<lparr>verb_of = GET, path = p, payload = \<lparr>req_url = None, req_code = None\<rparr>, fuel_of = 0,
      ticks = sched\<rparr>"







section \<open>Code format\<close>

lemma in_class_CODE_REGEX: "in_class (ranges CODE_REGEX) c = alnum c"
  by (simp add: CODE_REGEX_def alnum_def)

lemma repeat_to_end_iff:
  "repeat_to_end cls m n s \<longleftrightarrow> m \<le> length s \<and> length s \<le> n \<and> (\<forall>c \<in> set s. in_class cls c)"
proof (induction s arbitrary: m n)
  case Nil
  show ?case by simp
next
  case (Cons c cs)
  show ?case by (auto simp add: Cons.IH)
qed

lemma isValidCode_chars:
  "isValidCode s \<longleftrightarrow> 6 \<le> length s \<and> length s \<le> 8 \<and> (\<forall>c \<in> set s. alnum c)"
  by (simp add: isValidCode_def regex_test_def repeat_to_end_iff in_class_CODE_REGEX)
     (simp add: CODE_REGEX_def)

text \<open>
  C5: format validation is true exactly for the strings of 6 to 8 characters that are
  all in \<open>A-Z\<close>, \<open>a-z\<close>, \<open>0-9\<close>, and false for every other string.
\<close>

theorem isValidCode_iff:
  "isValidCode s \<longleftrightarrow> 6 \<le> length s \<and> length s \<le> 8 \<and> (\<forall>c \<in> set s. alnum c)"
  by (rule isValidCode_chars)

theorem isValidCode_iff_witness:
  "isValidCode ''abc123'' \<and> isValidCode ''Zz09AaZz'' \<and> \<not> isValidCode '''' \<and> \<not> isValidCode ''abcde''
   \<and> \<not> isValidCode ''abcdefghi'' \<and> \<not> isValidCode ''abc-ef''"
  using isValidCode_iff [of "''abc123''"] isValidCode_iff [of "''Zz09AaZz''"]
    isValidCode_iff [of "''''"] isValidCode_iff [of "''abcde''"]
    isValidCode_iff [of "''abcdefghi''"] isValidCode_iff [of "''abc-ef''"]
  by (simp add: alnum_def)

section \<open>Code generator\<close>













section \<open>Handlers\<close>

lemma isValidCode_not_empty: "isValidCode c \<Longrightarrow> c \<noteq> []"
  by (auto simp add: isValidCode_chars)

lemma isValidCode_not_api: "isValidCode c \<Longrightarrow> c \<noteq> ''api''"
  by (auto simp add: isValidCode_chars)

lemma query_ok:
  "\<not> fails (next_tick sched) \<Longrightarrow>
     query sched q w = (tl sched, exec q (meanwhile (next_tick sched) w))"
  by (simp add: query_def Let_def)

lemma query_fails:
  "fails (next_tick sched) \<Longrightarrow>
     query sched q w = (tl sched, meanwhile (next_tick sched) w, Inl ConnectionError)"
  by (simp add: query_def Let_def)

lemmas fixtures = sample_env_def empty_world_def sample_link_def sample_world_def failing_def
  post_req_def delete_req_def get_req_def quiet_def next_tick_def Let_def during_def

lemma valid_abcdef: "isValidCode ''abcdef''"
  by (simp add: isValidCode_chars alnum_def)

lemma valid_FFFFFF: "isValidCode ''FFFFFF''"
  by (simp add: isValidCode_chars alnum_def)

lemma gen_half: "generateCode 6 (sconst (1 / 2)) = (''FFFFFF'', sconst (1 / 2))"
  by (simp add: generateCode_def ALPHABET_def js_index_def numeral_nat)

subsection \<open>Allocation\<close>

text \<open>
  C1, at a failing input: a request without a code draws the candidate \<open>FFFFFF\<close> and
  finds it free; while its \<^verbatim>\<open>INSERT\<close> is on the way another request allocates
  \<open>FFFFFF\<close> explicitly; the store then refuses the \<^verbatim>\<open>INSERT\<close> with a unique
  violation, and the handler answers 409 instead of drawing a fresh candidate.
\<close>

theorem post_links_generated_conflict:
  "post_links sample_env 1
     [quiet, during sample_env [post_req (Some ''https://other.example'') (Some ''FFFFFF'')]]
     \<lparr>req_url = Some ''https://example.com'', req_code = None\<rparr> empty_world =
   Some (\<lparr>links = [\<lparr>link_id = 1, code = ''FFFFFF'', original_url = ''https://other.example'',
                     clicks = 0, last_clicked_at = None, created_at = 1000\<rparr>],
          next_id = 2, now = 1000, rng = sconst (1 / 2)\<rparr>,
         (409, Message ''Code already exists''))"
  by (simp add: post_links_def provided_def isValidUrl_def insert_link_def create_failed_def
      short_url_def query_def gen_half valid_FFFFFF others_def app_def fixtures)

text \<open>
  C3 as stated fails for the empty string: \<^verbatim>\<open>if (finalCode)\<close> takes an empty
  code for an absent one, so a code is generated and a row is inserted.
\<close>

theorem post_links_empty_code_counterexample:
  "\<not> isValidCode '''' \<and>
   post_links sample_env 1 [] \<lparr>req_url = Some ''https://example.com'', req_code = Some ''''\<rparr> empty_world =
     Some (empty_world\<lparr>links := [\<lparr>link_id = 1, code = ''FFFFFF'', original_url = ''https://example.com'',
                 clicks = 0, last_clicked_at = None, created_at = 1000\<rparr>], next_id := 2\<rparr>,
           (201, LinkJson \<lparr>link_id = 1, code = ''FFFFFF'', original_url = ''https://example.com'',
                 clicks = 0, last_clicked_at = None, created_at = 1000\<rparr> ''http://localhost:5000/FFFFFF''))"
  by (simp add: isValidCode_chars post_links_def provided_def isValidUrl_def insert_link_def
      short_url_def query_def gen_half fixtures)

text \<open>
  C3, amended: when the destination is missing, empty or not parseable, or a non-empty
  requested code does not match the format, the answer is 400 and the world is the one
  the handler started in, whatever the schedule: no query is sent.
\<close>

theorem post_links_invalid:
  assumes "(\<forall>u. req_url b = Some u \<longrightarrow> u = [] \<or> \<not> URL_ctor env u) \<or>
           (\<exists>c. req_code b = Some c \<and> c \<noteq> [] \<and> \<not> isValidCode c)"
  shows "\<exists>msg. post_links env fuel sched b w = Some (w, (400, Message msg))"
  using assms
  by (auto simp add: post_links_def provided_def isValidUrl_def split: option.splits)

theorem post_links_invalid_witness:
  "post_links sample_env 1 [failing] \<lparr>req_url = Some ''not-a-url'', req_code = None\<rparr> sample_world =
     Some (sample_world, (400, Message ''Invalid URL'')) \<and>
   post_links sample_env 1 [failing] \<lparr>req_url = Some ''https://x.com'', req_code = Some ''ab''\<rparr> sample_world =
     Some (sample_world, (400, Message ''Code must match [A-Za-z0-9]{6,8}''))"
  using post_links_invalid [of "\<lparr>req_url = Some ''not-a-url'', req_code = None\<rparr>" sample_env 1 "[failing]" sample_world]
    post_links_invalid [of "\<lparr>req_url = Some ''https://x.com'', req_code = Some ''ab''\<rparr>" sample_env 1 "[failing]" sample_world]
  by (simp add: post_links_def provided_def isValidUrl_def isValidCode_chars fixtures)

subsection \<open>Resolution\<close>

text \<open>
  C4: a malformed code (and the reserved segment \<open>healthz\<close>) is answered 404 in the
  unchanged world, before any query, whatever the schedule; a well-formed code without
  a row is answered 404 once its lookup has run; when a row is read and both queries
  go through, the answer is the redirect to its destination, and in the world the
  \<^verbatim>\<open>UPDATE\<close> finds exactly the rows with the identity that was read get one
  more click and the current time as their last visit, every other row staying as it
  is, also a row that has the same code by then.
\<close>

theorem get_code_spec:
  fixes sched :: "tick list" and w :: world
  defines "w1 \<equiv> meanwhile (next_tick sched) w"
  defines "w2 \<equiv> meanwhile (next_tick (tl sched)) w1"
  shows "(\<not> isValidCode c \<or> c = ''healthz'' \<longrightarrow>
            fst (get_code sched c w) = w \<and> fst (snd (get_code sched c w)) = 404) \<and>
         (isValidCode c \<and> c \<noteq> ''healthz'' \<and> \<not> fails (next_tick sched) \<and>
          (\<forall>l \<in> set (links w1). code l \<noteq> c) \<longrightarrow>
            get_code sched c w = (w1, (404, Text ''Short URL not found''))) \<and>
         (\<forall>l rest. isValidCode c \<and> c \<noteq> ''healthz'' \<and> \<not> fails (next_tick sched) \<and>
            \<not> fails (next_tick (tl sched)) \<and>
            filter (\<lambda>r. code r = c) (links w1) = l # rest \<longrightarrow>
            get_code sched c w =
              (w2\<lparr>links :=
                    map (\<lambda>r. if link_id r = link_id l
                              then r\<lparr>clicks := clicks r + 1, last_clicked_at := Some (now w2)\<rparr>
                              else r)
                      (links w2)\<rparr>,
               (302, Location (original_url l))))"
proof (intro conjI impI allI)
  assume "\<not> isValidCode c \<or> c = ''healthz''"
  then show "fst (get_code sched c w) = w" "fst (snd (get_code sched c w)) = 404"
    by (auto simp add: get_code_def)
next
  assume a: "isValidCode c \<and> c \<noteq> ''healthz'' \<and> \<not> fails (next_tick sched) \<and>
    (\<forall>l \<in> set (links w1). code l \<noteq> c)"
  then have "filter (\<lambda>r. code r = c) (links w1) = []"
    by (simp add: filter_empty_conv)
  with a show "get_code sched c w = (w1, (404, Text ''Short URL not found''))"
    by (simp add: get_code_def isValidCode_not_api query_ok w1_def Let_def)
next
  fix l rest
  assume a: "isValidCode c \<and> c \<noteq> ''healthz'' \<and> \<not> fails (next_tick sched) \<and>
    \<not> fails (next_tick (tl sched)) \<and> filter (\<lambda>r. code r = c) (links w1) = l # rest"
  then show "get_code sched c w =
      (w2\<lparr>links :=
            map (\<lambda>r. if link_id r = link_id l
                      then r\<lparr>clicks := clicks r + 1, last_clicked_at := Some (now w2)\<rparr>
                      else r)
              (links w2)\<rparr>,
       (302, Location (original_url l)))"
    by (simp add: get_code_def isValidCode_not_api query_ok w1_def w2_def Let_def)
qed

theorem get_code_spec_witness:
  "fst (get_code [failing] ''abc'' sample_world) = sample_world \<and>
   fst (snd (get_code [failing] ''abc'' sample_world)) = 404 \<and>
   get_code [] ''zzzzzz'' sample_world = (sample_world, (404, Text ''Short URL not found'')) \<and>
   get_code [] ''abcdef'' sample_world =
     (sample_world\<lparr>links := [sample_link\<lparr>clicks := 1, last_clicked_at := Some 2000\<rparr>]\<rparr>,
      (302, Location ''https://example.com/page'')) \<and>
   get_code
     [quiet, during sample_env [delete_req ''abcdef'', post_req (Some ''https://other.example'') (Some ''abcdef'')]]
     ''abcdef'' sample_world =
     (\<lparr>links = [\<lparr>link_id = 2, code = ''abcdef'', original_url = ''https://other.example'',
                   clicks = 0, last_clicked_at = None, created_at = 2000\<rparr>],
        next_id = 3, now = 2000, rng = sconst (1 / 2)\<rparr>,
      (302, Location ''https://example.com/page''))"
  using get_code_spec [where c = "''abc''" and sched = "[failing]" and w = sample_world]
    get_code_spec [where c = "''zzzzzz''" and sched = "[]" and w = sample_world]
    get_code_spec [where c = "''abcdef''" and sched = "[]" and w = sample_world]
  by (simp add: get_code_def isValidCode_chars alnum_def query_def others_def app_def
      delete_link_def post_links_def provided_def isValidUrl_def insert_link_def short_url_def
      fixtures)

text \<open>
  C2 as stated fails: the row exists, the \<^verbatim>\<open>UPDATE\<close> that records the visit is
  rejected, and the answer is 500, not the redirect.
\<close>

theorem get_code_update_fails_counterexample:
  "filter (\<lambda>r. code r = ''abcdef'') (links sample_world) = [sample_link] \<and>
   fails (next_tick (tl [quiet, failing])) \<and>
   snd (get_code [quiet, failing] ''abcdef'' sample_world) = (500, Text ''Server error'') \<and>
   snd (get_code [quiet, failing] ''abcdef'' sample_world) \<noteq> (302, Location (original_url sample_link))"
  by (simp add: get_code_def valid_abcdef query_def fixtures)

text \<open>
  C2, amended: when the row of a well-formed code has been read and the query that
  records the visit fails, the answer is 500 \<open>Server error\<close> and the destination is
  not returned; the handler itself leaves the table as it is.
\<close>

theorem get_code_update_fails:
  assumes "isValidCode c" and "c \<noteq> ''healthz''"
    and "\<not> fails (next_tick sched)"
    and "filter (\<lambda>r. code r = c) (links (meanwhile (next_tick sched) w)) = l # rest"
    and "fails (next_tick (tl sched))"
  shows "get_code sched c w =
           (meanwhile (next_tick (tl sched)) (meanwhile (next_tick sched) w),
            (500, Text ''Server error''))"
  using assms
  by (simp add: get_code_def isValidCode_not_api query_ok query_fails Let_def)

theorem get_code_update_fails_witness:
  "get_code [during sample_env [], failing] ''abcdef'' sample_world =
     (sample_world, (500, Text ''Server error''))"
  using get_code_update_fails [where c = "''abcdef''"
      and sched = "[during sample_env [], failing]" and w = sample_world and l = sample_link
      and rest = "[]"]
  by (simp add: valid_abcdef others_def fixtures)

subsection \<open>Deletion\<close>

text \<open>
  C9: a malformed code is answered 400 before any query; for a well-formed code whose
  query goes through the answer is 204 exactly when a row had that code, and all rows
  with the code are gone then; without such a row it is 404 \<open>Code not found\<close>, the
  table unchanged; and after a 204 an allocation of the same explicit code, with a
  destination that parses and nothing written to the table in between, is answered
  201 with a new row of that code.
\<close>

theorem delete_link_spec:
  fixes sched :: "tick list" and w :: world
  defines "w1 \<equiv> meanwhile (next_tick sched) w"
  shows "(\<not> isValidCode c \<longrightarrow> delete_link sched c w = (w, (400, Message ''Invalid code format''))) \<and>
    (isValidCode c \<and> \<not> fails (next_tick sched) \<and> c \<in> set (map code (links w1)) \<longrightarrow>
       delete_link sched c w = (w1\<lparr>links := filter (\<lambda>l. code l \<noteq> c) (links w1)\<rparr>, (204, Empty))) \<and>
    (isValidCode c \<and> \<not> fails (next_tick sched) \<and> c \<notin> set (map code (links w1)) \<longrightarrow>
       delete_link sched c w = (w1, (404, Message ''Code not found''))) \<and>
    (\<forall>w' (env :: env) fuel sched' u.
       delete_link sched c w = (w', (204, Empty)) \<and> u \<noteq> [] \<and> URL_ctor env u \<and>
       \<not> fails (next_tick sched') \<and> calm_tick (next_tick sched') \<longrightarrow>
       (\<exists>l w''. post_links env fuel sched' \<lparr>req_url = Some u, req_code = Some c\<rparr> w' =
                   Some (w'', (201, LinkJson l (short_url env l))) \<and>
                 code l = c \<and> original_url l = u \<and> clicks l = 0 \<and> links w'' = links w' @ [l]))"
proof (intro conjI impI allI)
  assume "\<not> isValidCode c"
  then show "delete_link sched c w = (w, (400, Message ''Invalid code format''))"
    by (simp add: delete_link_def)
next
  assume a: "isValidCode c \<and> \<not> fails (next_tick sched) \<and> c \<in> set (map code (links w1))"
  then have "filter (\<lambda>l. code l = c) (links w1) \<noteq> []"
    by (auto simp add: filter_empty_conv)
  with a show "delete_link sched c w =
      (w1\<lparr>links := filter (\<lambda>l. code l \<noteq> c) (links w1)\<rparr>, (204, Empty))"
    by (simp add: delete_link_def query_ok w1_def)
next
  assume a: "isValidCode c \<and> \<not> fails (next_tick sched) \<and> c \<notin> set (map code (links w1))"
  then have "filter (\<lambda>l. code l = c) (links w1) = []"
    by (auto simp add: filter_empty_conv)
  moreover from a have "filter (\<lambda>l. code l \<noteq> c) (links w1) = links w1"
    by (auto simp add: filter_id_conv)
  ultimately show "delete_link sched c w = (w1, (404, Message ''Code not found''))"
    using a by (simp add: delete_link_def query_ok w1_def)
next
  fix w' and env :: env and fuel sched' u
  assume a: "delete_link sched c w = (w', (204, Empty)) \<and> u \<noteq> [] \<and> URL_ctor env u \<and>
       \<not> fails (next_tick sched') \<and> calm_tick (next_tick sched')"
  then have valid: "isValidCode c"
    by (auto simp add: delete_link_def split: if_splits)
  have ok: "\<not> fails (next_tick sched)"
  proof
    assume "fails (next_tick sched)"
    with a valid show False
      by (simp add: delete_link_def query_fails)
  qed
  from a valid ok have w': "w' = w1\<lparr>links := filter (\<lambda>l. code l \<noteq> c) (links w1)\<rparr>"
    by (auto simp add: delete_link_def query_ok w1_def split: if_splits)
  define v where "v = meanwhile (next_tick sched') w'"
  from a have "links v = links w'"
    by (simp add: v_def calm_tick_def)
  with w' have free: "c \<notin> set (map code (links v))"
    by auto
  define l where "l = \<lparr>link_id = next_id v, code = c, original_url = u, clicks = 0,
                 last_clicked_at = None, created_at = now v\<rparr>"
  from a valid free isValidCode_not_empty [OF valid]
  have "post_links env fuel sched' \<lparr>req_url = Some u, req_code = Some c\<rparr> w' =
      Some (v\<lparr>links := links v @ [l], next_id := Suc (next_id v)\<rparr>, (201, LinkJson l (short_url env l)))"
    by (simp add: post_links_def provided_def isValidUrl_def insert_link_def query_ok v_def l_def Let_def)
  moreover have "code l = c" "original_url l = u" "clicks l = 0"
    by (simp_all add: l_def)
  ultimately show "\<exists>l w''. post_links env fuel sched' \<lparr>req_url = Some u, req_code = Some c\<rparr> w' =
                   Some (w'', (201, LinkJson l (short_url env l))) \<and>
                 code l = c \<and> original_url l = u \<and> clicks l = 0 \<and> links w'' = links w' @ [l]"
    using \<open>links v = links w'\<close> by auto
qed

theorem delete_link_spec_witness:
  "delete_link [] ''ab'' sample_world = (sample_world, (400, Message ''Invalid code format'')) \<and>
   delete_link [] ''abcdef'' sample_world = (sample_world\<lparr>links := []\<rparr>, (204, Empty)) \<and>
   delete_link [] ''zzzzzz'' sample_world = (sample_world, (404, Message ''Code not found'')) \<and>
   post_links sample_env 0 [] \<lparr>req_url = Some ''https://x.com'', req_code = Some ''abcdef''\<rparr>
       (sample_world\<lparr>links := []\<rparr>) =
     Some (sample_world\<lparr>links := [\<lparr>link_id = 2, code = ''abcdef'', original_url = ''https://x.com'',
                 clicks = 0, last_clicked_at = None, created_at = 2000\<rparr>], next_id := 3\<rparr>,
           (201, LinkJson \<lparr>link_id = 2, code = ''abcdef'', original_url = ''https://x.com'',
                 clicks = 0, last_clicked_at = None, created_at = 2000\<rparr>
              ''http://localhost:5000/abcdef''))"
  using delete_link_spec [where c = "''ab''" and sched = "[]" and w = sample_world]
    delete_link_spec [where c = "''abcdef''" and sched = "[]" and w = sample_world]
    delete_link_spec [where c = "''zzzzzz''" and sched = "[]" and w = sample_world]
  by (simp add: delete_link_def isValidCode_chars alnum_def query_def
      post_links_def provided_def isValidUrl_def insert_link_def short_url_def fixtures)

section \<open>Effects of the handlers on the table\<close>

text \<open>
  Under a calm schedule a query sees the rows and the sequence the handler left, and
  either fails without running or runs its statement.
\<close>

lemma quiet_calm: "calm_tick quiet"
  by (simp add: calm_tick_def quiet_def)

lemma calm_next: "calm sched \<Longrightarrow> calm_tick (next_tick sched)"
  by (cases sched) (simp_all add: calm_def next_tick_def quiet_calm)

lemma calm_tl: "calm sched \<Longrightarrow> calm (tl sched)"
  by (cases sched) (simp_all add: calm_def)

lemma calm_query:
  assumes "calm sched" and "query sched q w = (sched1, w1, res)"
  obtains w0 where "links w0 = links w" and "next_id w0 = next_id w" and "calm sched1"
    and "(res = Inl ConnectionError \<and> w1 = w0) \<or> exec q w0 = (w1, res)"
proof -
  define w0 where "w0 = meanwhile (next_tick sched) w"
  from calm_next [OF assms(1)] have "links w0 = links w" "next_id w0 = next_id w"
    by (simp_all add: w0_def calm_tick_def)
  moreover from assms(2) have "sched1 = tl sched"
    by (simp add: query_def Let_def split: if_splits)
  with calm_tl [OF assms(1)] have "calm sched1"
    by simp
  moreover from assms(2) have "(res = Inl ConnectionError \<and> w1 = w0) \<or> exec q w0 = (w1, res)"
    by (auto simp add: query_def Let_def w0_def split: if_splits)
  ultimately show thesis
    by (rule that)
qed

lemma get_links_effect:
  assumes "calm sched" and "get_links env sched w = (w', resp)"
  shows "links w' = links w \<and> next_id w' = next_id w \<and> fst resp \<noteq> 302"
proof -
  obtain sched1 w1 res where q: "query sched SELECT_ALL w = (sched1, w1, res)"
    by (metis prod_cases3)
  from calm_query [OF assms(1) q] obtain w0 where
    "links w0 = links w" "next_id w0 = next_id w"
    "(res = Inl ConnectionError \<and> w1 = w0) \<or> exec SELECT_ALL w0 = (w1, res)"
    by blast
  with assms(2) q show ?thesis
    by (auto simp add: get_links_def Let_def split: sum.splits)
qed

lemma get_link_effect:
  assumes "calm sched" and "get_link env sched c w = (w', resp)"
  shows "links w' = links w \<and> next_id w' = next_id w \<and> fst resp \<noteq> 302"
proof (cases "isValidCode c")
  case False
  with assms(2) show ?thesis
    by (auto simp add: get_link_def)
next
  case True
  obtain sched1 w1 res where q: "query sched (SELECT_BY_code c) w = (sched1, w1, res)"
    by (metis prod_cases3)
  from calm_query [OF assms(1) q] obtain w0 where
    "links w0 = links w" "next_id w0 = next_id w"
    "(res = Inl ConnectionError \<and> w1 = w0) \<or> exec (SELECT_BY_code c) w0 = (w1, res)"
    by blast
  with assms(2) q True show ?thesis
    by (auto simp add: get_link_def Let_def split: sum.splits list.splits)
qed

lemma delete_link_effect:
  assumes "calm sched" and "delete_link sched c w = (w', resp)"
  shows "(links w' = links w \<and> next_id w' = next_id w \<and> fst resp \<noteq> 302) \<or>
         (resp = (204, Empty) \<and> links w' = filter (\<lambda>l. code l \<noteq> c) (links w) \<and>
          next_id w' = next_id w)"
proof (cases "isValidCode c")
  case False
  with assms(2) show ?thesis
    by (auto simp add: delete_link_def)
next
  case True
  obtain sched1 w1 res where q: "query sched (DELETE_BY_code c) w = (sched1, w1, res)"
    by (metis prod_cases3)
  from calm_query [OF assms(1) q] obtain w0 where w0:
    "links w0 = links w" "next_id w0 = next_id w"
    "(res = Inl ConnectionError \<and> w1 = w0) \<or> exec (DELETE_BY_code c) w0 = (w1, res)"
    by blast
  have same: "filter (\<lambda>l. code l \<noteq> c) (links w) = links w"
    if "filter (\<lambda>l. code l = c) (links w) = []"
    using that by (auto simp add: filter_empty_conv filter_id_conv)
  from assms(2) q True w0 same show ?thesis
    by (auto simp add: delete_link_def Let_def split: sum.splits if_splits)
qed

lemma get_code_effect:
  assumes "calm sched" and "get_code sched c w = (w', resp)"
  shows "(links w' = links w \<and> next_id w' = next_id w \<and> fst resp \<noteq> 302) \<or>
         (\<exists>l t. l \<in> set (links w) \<and> code l = c \<and> resp = (302, Location (original_url l)) \<and>
            links w' = fst (apply_change (Visited l t) w) \<and> next_id w' = next_id w)"
proof (cases "c = ''api'' \<or> c = ''healthz'' \<or> \<not> isValidCode c")
  case True
  then have "fst (get_code sched c w) = w" "fst (snd (get_code sched c w)) = 404"
    by (auto simp add: get_code_def)
  with assms(2) show ?thesis
    by simp
next
  case False
  obtain sched1 w1 res where q: "query sched (SELECT_BY_code c) w = (sched1, w1, res)"
    by (metis prod_cases3)
  from calm_query [OF assms(1) q] obtain w0 where w0:
    "links w0 = links w" "next_id w0 = next_id w" "calm sched1"
    "(res = Inl ConnectionError \<and> w1 = w0) \<or> exec (SELECT_BY_code c) w0 = (w1, res)"
    by blast
  show ?thesis
  proof (cases res)
    case (Inl err)
    with assms(2) q False w0 show ?thesis
      by (auto simp add: get_code_def Let_def)
  next
    case (Inr found)
    with w0 have w1: "w1 = w0" and found: "rows found = filter (\<lambda>l. code l = c) (links w)"
      by (auto simp add: Let_def)
    show ?thesis
    proof (cases "rows found")
      case Nil
      with assms(2) q False Inr w0 w1 show ?thesis
        by (auto simp add: get_code_def)
    next
      case (Cons l rest)
      with found have "filter (\<lambda>l. code l = c) (links w) = l # rest"
        by simp
      then have "l \<in> set (filter (\<lambda>l. code l = c) (links w))"
        by (simp only: list.set_intros)
      then have l: "l \<in> set (links w)" "code l = c"
        by simp_all
      obtain sched2 w2 res2 where q2: "query sched1 (UPDATE_BY_id (link_id l)) w1 = (sched2, w2, res2)"
        by (metis prod_cases3)
      from calm_query [OF w0(3) q2] obtain v where v:
        "links v = links w1" "next_id v = next_id w1"
        "(res2 = Inl ConnectionError \<and> w2 = v) \<or> exec (UPDATE_BY_id (link_id l)) v = (w2, res2)"
        by blast
      from assms(2) q False Inr Cons q2 have out: "(w', resp) =
          (case res2 of Inl err \<Rightarrow> (w2, (500, Text ''Server error''))
           | Inr _ \<Rightarrow> (w2, (302, Location (original_url l))))"
        by (simp add: get_code_def)
      from v(3) show ?thesis
      proof
        assume "res2 = Inl ConnectionError \<and> w2 = v"
        with out v w0 w1 show ?thesis
          by simp
      next
        assume "exec (UPDATE_BY_id (link_id l)) v = (w2, res2)"
        with out v w0 w1 l have "resp = (302, Location (original_url l)) \<and>
            links w' = fst (apply_change (Visited l (now v)) w) \<and> next_id w' = next_id w"
          by auto
        with l show ?thesis
          by blast
      qed
    qed
  qed
qed


lemma generate_unique_calm:
  "calm sched \<Longrightarrow> generate_unique fuel sched w = Some (sched1, w1, res) \<Longrightarrow>
     links w1 = links w \<and> next_id w1 = next_id w \<and> calm sched1"
proof (induction fuel arbitrary: sched w)
  case 0
  then show ?case by simp
next
  case (Suc fuel)
  obtain finalCode rnd where g: "generateCode 6 (rng w) = (finalCode, rnd)"
    by (metis surj_pair)
  obtain s1 v1 r where q: "query sched (SELECT_BY_code finalCode) (w\<lparr>rng := rnd\<rparr>) = (s1, v1, r)"
    by (metis prod_cases3)
  from calm_query [OF Suc.prems(1) q] obtain w0 where w0:
    "links w0 = links (w\<lparr>rng := rnd\<rparr>)" "next_id w0 = next_id (w\<lparr>rng := rnd\<rparr>)" "calm s1"
    "(r = Inl ConnectionError \<and> v1 = w0) \<or> exec (SELECT_BY_code finalCode) w0 = (v1, r)"
    by blast
  then have v1: "links v1 = links w" "next_id v1 = next_id w"
    by (auto simp add: Let_def)
  show ?case
  proof (cases r)
    case (Inl err)
    with Suc.prems(2) g q v1 w0(3) show ?thesis
      by simp
  next
    case (Inr existing)
    show ?thesis
    proof (cases "length (rows existing) > 0")
      case True
      with Suc.prems(2) g q Inr have "generate_unique fuel s1 v1 = Some (sched1, w1, res)"
        by simp
      from Suc.IH [OF w0(3) this] v1 show ?thesis
        by simp
    next
      case False
      with Suc.prems(2) g q Inr v1 w0(3) show ?thesis
        by simp
    qed
  qed
qed

lemma insert_link_effect:
  assumes "calm sched" and "insert_link env sched c u w = (w', resp)"
  shows "(links w' = links w \<and> next_id w' = next_id w \<and> fst resp \<noteq> 302 \<and> fst resp \<noteq> 201) \<or>
         (\<exists>l. fst resp = 201 \<and> links w' = links w @ [l] \<and> next_id w' = Suc (next_id w) \<and>
            link_id l = next_id w \<and> code l = c \<and> original_url l = u \<and>
            c \<notin> set (map code (links w)) \<and> clicks l = 0 \<and> last_clicked_at l = None)"
proof -
  obtain s1 w1 res where q: "query sched (INSERT c u) w = (s1, w1, res)"
    by (metis prod_cases3)
  from calm_query [OF assms(1) q] obtain w0 where w0:
    "links w0 = links w" "next_id w0 = next_id w"
    "(res = Inl ConnectionError \<and> w1 = w0) \<or> exec (INSERT c u) w0 = (w1, res)"
    by blast
  from w0(3) show ?thesis
  proof
    assume "res = Inl ConnectionError \<and> w1 = w0"
    with assms(2) q w0 show ?thesis
      by (auto simp add: insert_link_def create_failed_def)
  next
    assume e: "exec (INSERT c u) w0 = (w1, res)"
    show ?thesis
    proof (cases "c \<in> set (map code (links w0))")
      case True
      with e assms(2) q w0 show ?thesis
        by (auto simp add: insert_link_def create_failed_def)
    next
      case False
      with e assms(2) q w0 show ?thesis
        by (auto simp add: insert_link_def Let_def)
    qed
  qed
qed

lemma post_links_effect:
  assumes "calm sched" and "post_links env fuel sched b w = Some (w', resp)"
  shows "(links w' = links w \<and> next_id w' = next_id w \<and> fst resp \<noteq> 302 \<and> fst resp \<noteq> 201) \<or>
         (\<exists>l. fst resp = 201 \<and> links w' = links w @ [l] \<and> next_id w' = Suc (next_id w) \<and>
            link_id l = next_id w \<and> code l \<notin> set (map code (links w)) \<and> clicks l = 0 \<and>
            last_clicked_at l = None)"
proof (cases "provided (req_url b)")
  case None
  with assms(2) show ?thesis
    by (auto simp add: post_links_def)
next
  case (Some url)
  show ?thesis
  proof (cases "\<not> isValidUrl (URL_ctor env) url \<or>
      (case provided (req_code b) of Some c \<Rightarrow> \<not> isValidCode c | None \<Rightarrow> False)")
    case True
    with assms(2) Some have "w' = w \<and> fst resp = 400"
      by (auto simp add: post_links_def split: if_splits)
    then show ?thesis
      by simp
  next
    case False
    define chosen where "chosen =
      (case provided (req_code b) of None \<Rightarrow> generate_unique fuel sched w
       | Some c \<Rightarrow> Some (sched, w, Inr c))"
    from assms(2) Some False have out: "Some (w', resp) =
        (case chosen of None \<Rightarrow> None
         | Some (sched1, w1, Inl err) \<Rightarrow> Some (w1, create_failed err)
         | Some (sched1, w1, Inr finalCode) \<Rightarrow> Some (insert_link env sched1 finalCode url w1))"
      by (simp add: post_links_def chosen_def)
    then obtain sched1 w1 r where ch: "chosen = Some (sched1, w1, r)"
      by (cases chosen) auto
    have same: "links w1 = links w \<and> next_id w1 = next_id w \<and> calm sched1"
    proof (cases "provided (req_code b)")
      case None
      with ch have "generate_unique fuel sched w = Some (sched1, w1, r)"
        by (simp add: chosen_def)
      from generate_unique_calm [OF assms(1) this] show ?thesis .
    next
      case (Some c)
      with ch assms(1) show ?thesis
        by (simp add: chosen_def)
    qed
    show ?thesis
    proof (cases r)
      case (Inl err)
      with out ch same show ?thesis
        by (auto simp add: create_failed_def)
    next
      case (Inr finalCode)
      with out ch have "insert_link env sched1 finalCode url w1 = (w', resp)"
        by simp
      from insert_link_effect [OF _ this] same show ?thesis
        by auto
    qed
  qed
qed

lemma matches_Param: "matches [Param] p \<longleftrightarrow> p = [p ! 0] \<and> p ! 0 \<noteq> []"
  by (cases p; cases "tl p") auto


lemma app_effect:
  assumes "calm (ticks r)" and "app env r w = Some (w', resp)"
  shows "\<exists>ch. caused_by ch r resp w \<and> apply_change ch w = (links w', next_id w')"
proof -
  consider (health) "w' = w" "resp = healthz env"
    | (post) "verb_of r = POST" "matches [Lit ''api'', Lit ''links''] (path r)"
        "post_links env (fuel_of r) (ticks r) (payload r) w = Some (w', resp)"
    | (list) "get_links env (ticks r) w = (w', resp)"
    | (stats) "get_link env (ticks r) (path r ! 2) w = (w', resp)"
    | (delete) "verb_of r = DELETE" "matches [Lit ''api'', Lit ''links'', Param] (path r)"
        "delete_link (ticks r) (path r ! 2) w = (w', resp)"
    | (resolve) "verb_of r = GET" "matches [Param] (path r)"
        "get_code (ticks r) (path r ! 0) w = (w', resp)"
    | (unrouted) "w' = w" "resp = (404, Unrouted)"
    using assms(2) by (auto simp add: app_def split: if_splits)
  then show ?thesis
  proof cases
    case health
    then have "caused_by Unchanged r resp w \<and> apply_change Unchanged w = (links w', next_id w')"
      by (simp add: healthz_def)
    then show ?thesis ..
  next
    case post
    from post_links_effect [OF assms(1) post(3)] show ?thesis
    proof (elim disjE exE conjE)
      assume "links w' = links w" "next_id w' = next_id w" "fst resp \<noteq> 302"
      then have "caused_by Unchanged r resp w \<and> apply_change Unchanged w = (links w', next_id w')"
        by simp
      then show ?thesis ..
    next
      fix l
      assume "fst resp = 201" "links w' = links w @ [l]" "next_id w' = Suc (next_id w)"
        "link_id l = next_id w" "code l \<notin> set (map code (links w))" "clicks l = 0"
        "last_clicked_at l = None"
      with post have "caused_by (Inserted l) r resp w \<and>
          apply_change (Inserted l) w = (links w', next_id w')"
        by simp
      then show ?thesis ..
    qed
  next
    case list
    from get_links_effect [OF assms(1) list]
    have "caused_by Unchanged r resp w \<and> apply_change Unchanged w = (links w', next_id w')"
      by simp
    then show ?thesis ..
  next
    case stats
    from get_link_effect [OF assms(1) stats]
    have "caused_by Unchanged r resp w \<and> apply_change Unchanged w = (links w', next_id w')"
      by simp
    then show ?thesis ..
  next
    case delete
    from delete_link_effect [OF assms(1) delete(3)] show ?thesis
    proof (elim disjE conjE)
      assume "links w' = links w" "next_id w' = next_id w" "fst resp \<noteq> 302"
      then have "caused_by Unchanged r resp w \<and> apply_change Unchanged w = (links w', next_id w')"
        by simp
      then show ?thesis ..
    next
      assume "resp = (204, Empty)" "links w' = filter (\<lambda>l. code l \<noteq> path r ! 2) (links w)"
        "next_id w' = next_id w"
      with delete
      have "caused_by (Removed (path r ! 2)) r resp w \<and>
          apply_change (Removed (path r ! 2)) w = (links w', next_id w')"
        by simp
      then show ?thesis ..
    qed
  next
    case resolve
    from resolve(2) have p: "path r = [path r ! 0]"
      by (simp add: matches_Param)
    from get_code_effect [OF assms(1) resolve(3)] show ?thesis
    proof (elim disjE exE conjE)
      assume "links w' = links w" "next_id w' = next_id w" "fst resp \<noteq> 302"
      then have "caused_by Unchanged r resp w \<and> apply_change Unchanged w = (links w', next_id w')"
        by simp
      then show ?thesis ..
    next
      fix l t
      assume "l \<in> set (links w)" "code l = path r ! 0" "resp = (302, Location (original_url l))"
        "links w' = fst (apply_change (Visited l t) w)" "next_id w' = next_id w"
      with resolve(1) p
      have "caused_by (Visited l t) r resp w \<and>
          apply_change (Visited l t) w = (links w', next_id w')"
        by simp
      then show ?thesis ..
    qed
  next
    case unrouted
    then have "caused_by Unchanged r resp w \<and> apply_change Unchanged w = (links w', next_id w')"
      by simp
    then show ?thesis ..
  qed
qed

subsection \<open>Consequences of a change\<close>



lemma change_cases:
  assumes "caused_by ch r resp w" and "apply_change ch w = (links w', next_id w')"
  obtains
    (unchanged) "links w' = links w" and "next_id w' = next_id w"
      and "\<not> (verb_of r = GET \<and> length (path r) = 1 \<and> fst resp = 302)"
  | (inserted) l where "links w' = links w @ [l]" and "next_id w' = Suc (next_id w)"
      and "verb_of r = POST" and "fst resp = 201"
      and "link_id l = next_id w" and "code l \<notin> set (map code (links w))"
      and "clicks l = 0" and "last_clicked_at l = None"
  | (removed) c where "links w' = filter (\<lambda>l. code l \<noteq> c) (links w)"
      and "next_id w' = next_id w" and "verb_of r = DELETE" and "resp = (204, Empty)"
  | (visited) l t where
      "links w' = map (\<lambda>r. if link_id r = link_id l
                             then r\<lparr>clicks := clicks r + 1, last_clicked_at := Some t\<rparr>
                             else r) (links w)"
      and "next_id w' = next_id w" and "verb_of r = GET" and "path r = [code l]"
      and "resp = (302, Location (original_url l))" and "l \<in> set (links w)"
proof (cases ch)
  case Unchanged
  with assms have "links w' = links w" "next_id w' = next_id w"
    "\<not> (verb_of r = GET \<and> length (path r) = 1 \<and> fst resp = 302)"
    by simp_all
  then show thesis by (rule unchanged)
next
  case (Inserted l)
  with assms have "links w' = links w @ [l]" "next_id w' = Suc (next_id w)"
    "verb_of r = POST" "fst resp = 201"
    "link_id l = next_id w" "code l \<notin> set (map code (links w))"
    "clicks l = 0" "last_clicked_at l = None"
    by simp_all
  then show thesis by (rule inserted)
next
  case (Removed c)
  with assms have "links w' = filter (\<lambda>l. code l \<noteq> c) (links w)"
    "next_id w' = next_id w" "verb_of r = DELETE" "resp = (204, Empty)"
    by simp_all
  then show thesis by (rule removed)
next
  case (Visited l t)
  with assms have "links w' = map (\<lambda>r. if link_id r = link_id l
                             then r\<lparr>clicks := clicks r + 1, last_clicked_at := Some t\<rparr>
                             else r) (links w)"
    "next_id w' = next_id w" "verb_of r = GET" "path r = [code l]"
    "resp = (302, Location (original_url l))" "l \<in> set (links w)"
    by simp_all
  then show thesis by (rule visited)
qed

lemma wf_change:
  assumes "wf w" and "caused_by ch r resp w" and "apply_change ch w = (links w', next_id w')"
  shows "wf w' \<and> next_id w \<le> next_id w'"
  using assms(2,3)
proof (cases rule: change_cases)
  case unchanged
  with assms(1) show ?thesis
    by (simp add: wf_def)
next
  case (inserted l)
  with assms(1) show ?thesis
    by (auto simp add: wf_def)
next
  case (removed c)
  with assms(1) show ?thesis
    by (auto simp add: wf_def distinct_map_filter)
next
  case (visited l t)
  let ?f = "\<lambda>r. if link_id r = link_id l
               then r\<lparr>clicks := clicks r + 1, last_clicked_at := Some t\<rparr> else r"
  have keep: "link_id \<circ> ?f = link_id" "code \<circ> ?f = code"
    by (auto simp add: fun_eq_iff)
  have "map link_id (links w') = map link_id (links w)"
    and "map code (links w') = map code (links w)"
    unfolding visited(1) map_map keep by (rule refl)+
  with assms(1) visited(2) show ?thesis
    by (simp only: wf_def) simp
qed





subsection \<open>Runs\<close>

lemma run_Cons:
  assumes "run env (r # rs) w = Some (w', resps)"
  obtains w1 resp resps1 where "app env r w = Some (w1, resp)"
    and "run env rs w1 = Some (w', resps1)" and "resps = resp # resps1"
  using assms by (auto split: option.splits)

lemma run_wf:
  "wf w \<Longrightarrow> all_calm rs \<Longrightarrow> run env rs w = Some (w', resps) \<Longrightarrow>
     wf w' \<and> next_id w \<le> next_id w'"
proof (induction rs arbitrary: w resps)
  case Nil
  then show ?case by simp
next
  case (Cons r rs)
  from Cons.prems(3) obtain w1 resp resps1 where step: "app env r w = Some (w1, resp)"
    and rest: "run env rs w1 = Some (w', resps1)"
    by (rule run_Cons)
  from Cons.prems(2) have calm: "calm (ticks r)" "all_calm rs"
    by (simp_all add: all_calm_def)
  from app_effect [OF calm(1) step] obtain ch where
    ch: "caused_by ch r resp w" "apply_change ch w = (links w1, next_id w1)"
    by blast
  from wf_change [OF Cons.prems(1) ch] have w1: "wf w1" "next_id w \<le> next_id w1"
    by simp_all
  from Cons.IH [OF w1(1) calm(2) rest] w1(2) show ?case
    by simp
qed







lemma wf_empty_world: "wf empty_world"
  by (simp add: wf_def empty_world_def)




subsection \<open>The scenarios of the specification\<close>

text \<open>
  The two scenarios the specification lists, run on the empty table: an allocation
  with a generated code, two resolutions, a stats lookup, the deletion and a resolution
  after it; and an unparseable destination, a code that is too short, and the same
  explicit code allocated twice.
\<close>

lemma spec_scenario_visits:
  "map_option (\<lambda>(w, resps). (map fst resps, links w))
     (run sample_env
        [post_req (Some ''https://example.com/page'') None, get_req [''FFFFFF''] [],
         get_req [''FFFFFF''] [], get_req [''api'', ''links'', ''FFFFFF''] [],
         delete_req ''FFFFFF'', get_req [''FFFFFF''] []]
        empty_world) =
   Some ([201, 302, 302, 200, 204, 404], [])"
  by (simp add: app_def post_links_def provided_def isValidUrl_def insert_link_def
      delete_link_def get_link_def short_url_def query_def gen_half valid_FFFFFF get_code_def
      fixtures)

lemma spec_scenario_conflict:
  "map_option (\<lambda>(w, resps). (map fst resps, map code (links w)))
     (run sample_env
        [post_req (Some ''not-a-url'') None, post_req (Some ''https://x.com'') (Some ''ab''),
         post_req (Some ''https://x.com'') (Some ''abcdef''),
         post_req (Some ''https://x.com'') (Some ''abcdef'')]
        empty_world) =
   Some ([400, 400, 201, 409], [''abcdef''])"
  by (simp add: app_def post_links_def provided_def isValidUrl_def insert_link_def
      create_failed_def short_url_def query_def isValidCode_chars alnum_def fixtures)

section \<open>Immutable fields\<close>




section \<open>Visit counts\<close>




section \<open>Reserved path segments\<close>








end
